theory Spec2Isabelle
  imports Main
begin

section \<open>Python string primitives used by agents/utils.py\<close>

text \<open>
  A Python \<open>str\<close> is modelled as a \<open>string\<close> whose characters are the code points
  0..255 (Latin-1). The builtins below follow what CPython does on that range.
\<close>

definition py_isspace :: "char \<Rightarrow> bool" where
  \<comment> \<open>the characters \<open>str.split()\<close> and \<open>str.strip()\<close> treat as whitespace\<close>
  "py_isspace c =
     (let n = (of_char c :: nat)
      in (9 \<le> n \<and> n \<le> 13) \<or> (28 \<le> n \<and> n \<le> 32) \<or> n = 133 \<or> n = 160)"

definition lower_char :: "char \<Rightarrow> char" where
  "lower_char c =
     (let n = (of_char c :: nat)
      in if (65 \<le> n \<and> n \<le> 90) \<or> (192 \<le> n \<and> n \<le> 222 \<and> n \<noteq> 215)
         then char_of (n + 32) else c)"

definition py_lower :: "string \<Rightarrow> string" where
  \<comment> \<open>\<open>s.lower()\<close>\<close>
  "py_lower s = map lower_char s"

fun split_ws :: "string \<Rightarrow> string \<Rightarrow> string list" where
  \<comment> \<open>the first argument is the token being read, reversed\<close>
  "split_ws cur [] = (if cur = [] then [] else [rev cur])"
| "split_ws cur (c # cs) =
     (if py_isspace c
      then (if cur = [] then split_ws [] cs else rev cur # split_ws [] cs)
      else split_ws (c # cur) cs)"

definition py_split :: "string \<Rightarrow> string list" where
  \<comment> \<open>\<open>s.split()\<close>: the maximal runs of non-whitespace characters\<close>
  "py_split s = split_ws [] s"

fun py_split_sep :: "char \<Rightarrow> string \<Rightarrow> string list" where
  \<comment> \<open>\<open>s.split(sep)\<close> for a one-character separator: never the empty list\<close>
  "py_split_sep sep [] = [[]]"
| "py_split_sep sep (c # cs) =
     (if c = sep then [] # py_split_sep sep cs
      else (case py_split_sep sep cs of
              [] \<Rightarrow> [[c]]
            | t # ts \<Rightarrow> (c # t) # ts))"

definition py_strip :: "string \<Rightarrow> string" where
  \<comment> \<open>\<open>s.strip()\<close>\<close>
  "py_strip s = rev (dropWhile py_isspace (rev (dropWhile py_isspace s)))"

fun py_join :: "string \<Rightarrow> string list \<Rightarrow> string" where
  \<comment> \<open>\<open>sep.join(xs)\<close>\<close>
  "py_join sep [] = []"
| "py_join sep [x] = x"
| "py_join sep (x # y # ys) = x @ sep @ py_join sep (y # ys)"

fun str_nat :: "nat \<Rightarrow> string" where
  "str_nat n =
     (if n < 10 then [char_of (48 + n)]
      else str_nat (n div 10) @ [char_of (48 + n mod 10)])"

declare str_nat.simps [simp del]

definition str_int :: "int \<Rightarrow> string" where
  \<comment> \<open>\<open>str(i)\<close> for an \<open>int\<close>\<close>
  "str_int i = (if i < 0 then CHR ''-'' # str_nat (nat (- i)) else str_nat (nat i))"

type_synonym environ = "string \<rightharpoonup> string"

definition environ_get :: "environ \<Rightarrow> string \<Rightarrow> string \<Rightarrow> string" where
  \<comment> \<open>\<open>os.environ.get(key, default)\<close>\<close>
  "environ_get env key dflt = (case env key of None \<Rightarrow> dflt | Some v \<Rightarrow> v)"

section \<open>Effects and results\<close>

datatype command = CmdStr string | CmdList "string list"

datatype level = Debug | Info | Warning | Error | Critical

datatype stream = Stdout | Stderr

record 'k popen_args =
  pa_args :: command
  pa_capture_output :: bool
  pa_text :: bool
  pa_shell :: bool
  pa_kwargs :: 'k

text \<open>
  What the host platform answers to a request to create a process: the process ran and
  exited with a return code (and the captured streams, when requested), or the request
  itself failed with an exception whose text is carried.
\<close>

datatype proc_outcome =
    Exited int "string option" "string option"
  | SpawnFailed string

record completed_process =
  cp_args :: command
  cp_returncode :: int
  cp_stdout :: "string option"
  cp_stderr :: "string option"

text \<open>
  The exceptions a call can end in. \<open>PermissionError\<close> is the one raised by the policy
  check of \<open>safe_run\<close> and \<open>IndexError\<close> the one raised by \<open>cmd.split()[0]\<close>, each with
  its message. \<open>CalledProcessError\<close> carries the return code, the command and the
  captured streams. \<open>OtherError\<close> stands for any other exception raised inside
  \<open>subprocess.run\<close> (a missing executable, a refusal of the operating system, a
  timeout), with its text; it is kept apart from the policy's \<open>PermissionError\<close>.
\<close>

datatype error =
    PermissionError string
  | IndexError string
  | CalledProcessError int command "string option" "string option"
  | OtherError string

text \<open>
  Every observable effect of the two functions is an event; a call returns the events
  it caused, in order, with its result.
\<close>

datatype 'k event =
    EnvGet string
  | LogCall level string
  | Spawn "'k popen_args"
  | Print stream string

definition spawns :: "'k event list \<Rightarrow> 'k popen_args list" where
  "spawns t = concat (map (\<lambda>e. case e of Spawn r \<Rightarrow> [r] | _ \<Rightarrow> []) t)"

definition prints :: "'k event list \<Rightarrow> (stream \<times> string) list" where
  "prints t = concat (map (\<lambda>e. case e of Print s l \<Rightarrow> [(s, l)] | _ \<Rightarrow> []) t)"

definition log_calls :: "'k event list \<Rightarrow> (level \<times> string) list" where
  "log_calls t = concat (map (\<lambda>e. case e of LogCall s l \<Rightarrow> [(s, l)] | _ \<Rightarrow> []) t)"

section \<open>subprocess.run\<close>

text \<open>
  The standard library's \<open>subprocess.run\<close>, over the host's process primitive \<open>os\<close>:
  it creates the process, propagates a failure to do so, and with \<open>check\<close> turns a
  non-zero return code into \<open>CalledProcessError\<close> carrying the return code, the
  command and the captured streams.
\<close>

definition subprocess_run ::
  "('k popen_args \<Rightarrow> proc_outcome) \<Rightarrow> command \<Rightarrow> bool \<Rightarrow> bool \<Rightarrow> bool \<Rightarrow> bool \<Rightarrow> 'k
   \<Rightarrow> 'k event list \<times> (error + completed_process)" where
  "subprocess_run os cmd check capture_output text_mode shell kwargs =
     (let req = \<lparr>pa_args = cmd, pa_capture_output = capture_output, pa_text = text_mode,
                 pa_shell = shell, pa_kwargs = kwargs\<rparr>
      in ([Spawn req],
          case os req of
            SpawnFailed msg \<Rightarrow> Inl (OtherError msg)
          | Exited rc out err \<Rightarrow>
              if check \<and> rc \<noteq> 0 then Inl (CalledProcessError rc cmd out err)
              else Inr \<lparr>cp_args = cmd, cp_returncode = rc, cp_stdout = out, cp_stderr = err\<rparr>))"

section \<open>safe_run\<close>

text \<open>
  The body of \<open>safe_run\<close> is modelled in two parts, composed by \<open>safe_run\<close> below:
  \<open>check_shell\<close> is the block under \<open>if shell:\<close> (lines 53 to 67), and \<open>run_logged\<close> is
  the rest (lines 69 to 89), the call of \<open>subprocess.run\<close> between its log lines. The
  parameter \<open>text\<close> of the source is named \<open>text_mode\<close> here.
\<close>

definition allowed_list_of :: "string \<Rightarrow> string list" where
  \<comment> \<open>\<open>[c.strip() for c in allowed_commands.split(",") if c.strip()]\<close>\<close>
  "allowed_list_of allowed_commands =
     map py_strip (filter (\<lambda>c. py_strip c \<noteq> []) (py_split_sep CHR '','' allowed_commands))"

definition cmd_name_of :: "command \<Rightarrow> error + string" where
  \<comment> \<open>\<open>cmd.split()[0] if isinstance(cmd, str) else ""\<close>\<close>
  "cmd_name_of cmd =
     (case cmd of
        CmdStr s \<Rightarrow>
          (case py_split s of
             [] \<Rightarrow> Inl (IndexError ''list index out of range'')
           | t # _ \<Rightarrow> Inr t)
      | CmdList _ \<Rightarrow> Inr [])"

definition permission_message :: "string \<Rightarrow> string" where
  "permission_message cmd_name =
     ''Shell execution not allowed. Set ALLOW_SHELL=true or add '' @ [CHR 0x27] @ cmd_name
       @ [CHR 0x27] @ '' to ALLOWED_SHELL_COMMANDS environment variable.''"

definition check_shell :: "environ \<Rightarrow> command \<Rightarrow> 'k event list \<times> (error + unit)" where
  \<comment> \<open>lines 53 to 67, the body of \<open>if shell:\<close>\<close>
  "check_shell env cmd =
     (let allow_shell = (py_lower (environ_get env ''ALLOW_SHELL'' '''') = ''true'')
      in if \<not> allow_shell
         then
           (let allowed_commands = environ_get env ''ALLOWED_SHELL_COMMANDS'' '''';
                allowed_list = allowed_list_of allowed_commands;
                t = [EnvGet ''ALLOW_SHELL'', EnvGet ''ALLOWED_SHELL_COMMANDS'']
            in case cmd_name_of cmd of
                 Inl e \<Rightarrow> (t, Inl e)
               | Inr cmd_name \<Rightarrow>
                   if cmd_name \<notin> set allowed_list
                   then (t, Inl (PermissionError (permission_message cmd_name)))
                   else (t, Inr ()))
         else ([EnvGet ''ALLOW_SHELL''], Inr ()))"

fun error_str :: "error \<Rightarrow> string" where
  \<comment> \<open>\<open>str(e)\<close> in the clause \<open>except Exception as e\<close>; a \<open>CalledProcessError\<close> is
      handled by the clause before it and never gets here\<close>
  "error_str (PermissionError m) = m"
| "error_str (IndexError m) = m"
| "error_str (OtherError m) = m"

definition run_logged ::
  "('k popen_args \<Rightarrow> proc_outcome) \<Rightarrow> command \<Rightarrow> bool \<Rightarrow> bool \<Rightarrow> bool \<Rightarrow> bool \<Rightarrow> 'k
   \<Rightarrow> 'k event list \<times> (error + completed_process)" where
  \<comment> \<open>lines 69 to 89: the trace before the call, the call, the trace after it\<close>
  "run_logged os cmd check capture_output text_mode shell kwargs =
     (let cmd_str = (case cmd of CmdStr s \<Rightarrow> s | CmdList xs \<Rightarrow> py_join '' '' xs);
          t1 = [LogCall Debug (''Executing: '' @ cmd_str)];
          (t2, r) = subprocess_run os cmd check capture_output text_mode shell kwargs
      in case r of
           Inr result \<Rightarrow>
             (t1 @ t2 @ [LogCall Debug (''Command completed with return code: ''
                                          @ str_int (cp_returncode result))],
              Inr result)
         | Inl (CalledProcessError rc c out err) \<Rightarrow>
             (t1 @ t2 @ [LogCall Error (''Command failed with return code '' @ str_int rc
                                          @ '': '' @ cmd_str)],
              Inl (CalledProcessError rc c out err))
         | Inl e \<Rightarrow>
             (t1 @ t2 @ [LogCall Error (''Unexpected error running command: '' @ error_str e)],
              Inl e))"

definition safe_run ::
  "('k popen_args \<Rightarrow> proc_outcome) \<Rightarrow> environ \<Rightarrow> command \<Rightarrow> bool \<Rightarrow> bool \<Rightarrow> bool \<Rightarrow> bool \<Rightarrow> 'k
   \<Rightarrow> 'k event list \<times> (error + completed_process)" where
  "safe_run os env cmd check capture_output text_mode shell kwargs =
     (if shell
      then (case check_shell env cmd of
              (t, Inl e) \<Rightarrow> (t, Inl e)
            | (t, Inr u) \<Rightarrow>
                (let (t', r) = run_logged os cmd check capture_output text_mode shell kwargs
                 in (t @ t', r)))
      else run_logged os cmd check capture_output text_mode shell kwargs)"

section \<open>user_log\<close>

definition log_methods :: "string \<rightharpoonup> level" where
  "log_methods = map_of
     [(''debug'', Debug), (''info'', Info), (''warning'', Warning),
      (''error'', Error), (''critical'', Critical)]"

definition user_log ::
  "('v \<Rightarrow> string) \<Rightarrow> environ \<Rightarrow> string \<Rightarrow> string \<Rightarrow> bool \<Rightarrow> (string \<times> 'v) list \<Rightarrow> 'k event list" where
  \<comment> \<open>\<open>str_of\<close> is the builtin \<open>str\<close> on the context's values; the keyword arguments
      are the pairs of \<open>kwargs.items()\<close>, in insertion order\<close>
  "user_log str_of env message level stderr kwargs =
     (let log_method = (case log_methods (py_lower level) of None \<Rightarrow> Info | Some m \<Rightarrow> m);
          full_message =
            (if kwargs \<noteq> []
             then (let extra_context = py_join '' | '' (map (\<lambda>(k, v). k @ ''='' @ str_of v) kwargs)
                   in message @ '' ['' @ extra_context @ '']'')
             else message)
      in [LogCall log_method full_message, EnvGet ''LOG_TO_STDOUT'']
         @ (if py_lower (environ_get env ''LOG_TO_STDOUT'' '''') = ''true''
            then (let output = (if stderr \<or> py_lower level \<in> {''error'', ''critical''}
                                then Stderr else Stdout)
                  in [Print output full_message])
            else []))"

section \<open>The execution policy\<close>

text \<open>
  Shell interpretation is authorized by the environment when \<open>ALLOW_SHELL\<close> lowercases
  to \<open>true\<close>, or when the command has an extracted name and that name is an entry
  of \<open>ALLOWED_SHELL_COMMANDS\<close>.
\<close>

definition shell_authorized :: "environ \<Rightarrow> command \<Rightarrow> bool" where
  "shell_authorized env cmd =
     (py_lower (environ_get env ''ALLOW_SHELL'' '''') = ''true''
      \<or> (case cmd_name_of cmd of
            Inl e \<Rightarrow> False
          | Inr cmd_name \<Rightarrow>
              cmd_name \<in> set (allowed_list_of (environ_get env ''ALLOWED_SHELL_COMMANDS'' ''''))))"

section \<open>Auxiliary facts\<close>

lemma allowed_list_nonempty_entries: "[] \<notin> set (allowed_list_of s)"
  by (auto simp: allowed_list_of_def)

lemma spawns_simps [simp]:
  "spawns [] = []"
  "spawns (EnvGet k # t) = spawns t"
  "spawns (LogCall l m # t) = spawns t"
  "spawns (Spawn r # t) = r # spawns t"
  "spawns (Print s m # t) = spawns t"
  "spawns (t @ t') = spawns t @ spawns t'"
  by (simp_all add: spawns_def)

lemma check_shell_cases:
  "check_shell env cmd =
     (if py_lower (environ_get env ''ALLOW_SHELL'' '''') = ''true''
      then ([EnvGet ''ALLOW_SHELL''], Inr ())
      else ([EnvGet ''ALLOW_SHELL'', EnvGet ''ALLOWED_SHELL_COMMANDS''],
            case cmd_name_of cmd of
              Inl e \<Rightarrow> Inl e
            | Inr n \<Rightarrow> if n \<in> set (allowed_list_of (environ_get env ''ALLOWED_SHELL_COMMANDS'' ''''))
                       then Inr () else Inl (PermissionError (permission_message n))))"
  by (simp add: check_shell_def Let_def split: sum.splits)


lemma spawn_position:
  assumes "pre @ Spawn req # post = es @ [Spawn q, l]"
    and "spawns es = []" and "spawns [l] = []"
  shows "pre = es \<and> req = q"
  using assms
proof (induction es arbitrary: pre)
  case Nil
  show ?case
  proof (cases pre)
    case Nil
    with Nil.prems show ?thesis by simp
  next
    case (Cons x pre')
    with Nil.prems have "pre' @ Spawn req # post = [l]" by simp
    then have "l = Spawn req" by (cases pre') simp_all
    with Nil.prems show ?thesis by simp
  qed
next
  case (Cons e es)
  show ?case
  proof (cases pre)
    case Nil
    with Cons.prems have "e = Spawn req" by simp
    with Cons.prems show ?thesis by simp
  next
    case (Cons x pre')
    with Cons.prems have "pre' @ Spawn req # post = es @ [Spawn q, l]" "x = e" by simp_all
    moreover from Cons.prems have "spawns es = []" by (cases e) simp_all
    ultimately show ?thesis using Cons.IH Cons.prems(3) Cons by blast
  qed
qed



lemma run_logged_shape:
  "fst (run_logged os cmd check co tm sh kw) =
        [LogCall Debug (''Executing: '' @ (case cmd of CmdStr s \<Rightarrow> s | CmdList xs \<Rightarrow> py_join '' '' xs)),
         Spawn \<lparr>pa_args = cmd, pa_capture_output = co, pa_text = tm, pa_shell = sh, pa_kwargs = kw\<rparr>,
         last (fst (run_logged os cmd check co tm sh kw))]"
  "spawns [last (fst (run_logged os cmd check co tm sh kw))] = []"
  by (simp_all add: run_logged_def subprocess_run_def Let_def split: proc_outcome.splits sum.splits error.splits)

lemma check_shell_ok_trace:
  assumes "shell_authorized env cmd"
  shows "check_shell env cmd =
     (if py_lower (environ_get env ''ALLOW_SHELL'' '''') = ''true''
      then [EnvGet ''ALLOW_SHELL''] else [EnvGet ''ALLOW_SHELL'', EnvGet ''ALLOWED_SHELL_COMMANDS''], Inr ())"
  using assms unfolding check_shell_cases shell_authorized_def
  by (auto split: sum.splits)

lemma safe_run_shell_authorized:
  assumes "shell_authorized env cmd"
  shows "safe_run os env cmd check co tm True kw =
           (fst (check_shell env cmd) @ fst (run_logged os cmd check co tm True kw),
            snd (run_logged os cmd check co tm True kw))"
  unfolding safe_run_def check_shell_ok_trace [OF assms]
  by (simp add: case_prod_beta)

lemma authorized_spawn_prefix:
  assumes run: "safe_run os env cmd check co tm True kw = (t, r)"
    and auth: "shell_authorized env cmd"
    and split: "t = pre @ Spawn req # post"
  shows "pre = fst (check_shell env cmd) @
           [LogCall Debug (''Executing: '' @ (case cmd of CmdStr s \<Rightarrow> s | CmdList xs \<Rightarrow> py_join '' '' xs))]
         \<and> req = \<lparr>pa_args = cmd, pa_capture_output = co, pa_text = tm, pa_shell = True, pa_kwargs = kw\<rparr>"
proof -
  let ?d = "LogCall Debug (''Executing: '' @ (case cmd of CmdStr s \<Rightarrow> s | CmdList xs \<Rightarrow> py_join '' '' xs))"
  let ?q = "\<lparr>pa_args = cmd, pa_capture_output = co, pa_text = tm, pa_shell = True, pa_kwargs = kw\<rparr>"
  let ?l = "last (fst (run_logged os cmd check co tm True kw))"
  let ?t0 = "fst (check_shell env cmd)"
  have "t = ?t0 @ fst (run_logged os cmd check co tm True kw)"
    using run safe_run_shell_authorized [OF auth, of os check co tm kw] by simp
  also have "fst (run_logged os cmd check co tm True kw) = [?d, Spawn ?q, ?l]"
    by (rule run_logged_shape(1))
  finally have t: "pre @ Spawn req # post = (?t0 @ [?d]) @ [Spawn ?q, ?l]"
    using split by simp
  have no: "spawns (?t0 @ [?d]) = []"
    by (simp add: check_shell_ok_trace [OF auth])
  show ?thesis
    using spawn_position [OF t no run_logged_shape(2)] .
qed

lemma safe_run_shell_unauthorized:
  assumes "\<not> shell_authorized env cmd"
  shows "safe_run os env cmd check co tm True kw =
           ([EnvGet ''ALLOW_SHELL'', EnvGet ''ALLOWED_SHELL_COMMANDS''],
            case cmd_name_of cmd of
              Inl e \<Rightarrow> Inl e
            | Inr n \<Rightarrow> Inl (PermissionError (permission_message n)))"
  using assms unfolding safe_run_def check_shell_cases shell_authorized_def
  by (auto split: sum.splits)

lemma split_ws_Nil_iff:
  "split_ws cur s = [] \<longleftrightarrow> cur = [] \<and> (\<forall>c \<in> set s. py_isspace c)"
  by (induction s arbitrary: cur) auto

lemma py_split_Nil_iff: "py_split s = [] \<longleftrightarrow> (\<forall>c \<in> set s. py_isspace c)"
  by (simp add: py_split_def split_ws_Nil_iff)

lemma cmd_name_of_cases:
  "cmd_name_of (CmdList xs) = Inr []"
  "py_split s = [] \<Longrightarrow> cmd_name_of (CmdStr s) = Inl (IndexError ''list index out of range'')"
  "py_split s = n # ns \<Longrightarrow> cmd_name_of (CmdStr s) = Inr n"
  by (simp_all add: cmd_name_of_def)

lemma split_ws_first:
  "split_ws cur s = n # ns \<Longrightarrow>
     \<exists>ws tk rest. s = ws @ tk @ rest \<and> n = rev cur @ tk \<and> n \<noteq> []
        \<and> (\<forall>c \<in> set ws. py_isspace c) \<and> (cur \<noteq> [] \<longrightarrow> ws = [])
        \<and> (\<forall>c \<in> set tk. \<not> py_isspace c)
        \<and> (rest = [] \<or> py_isspace (hd rest))"
proof (induction s arbitrary: cur)
  case Nil
  then show ?case by (auto split: if_splits)
next
  case (Cons c cs)
  show ?case
  proof (cases "py_isspace c")
    case sp: True
    show ?thesis
    proof (cases "cur = []")
      case True
      with sp Cons.prems have "split_ws [] cs = n # ns" by simp
      from Cons.IH [OF this] obtain ws tk rest where
        "cs = ws @ tk @ rest" "n = tk" "n \<noteq> []" "\<forall>c \<in> set ws. py_isspace c"
        "\<forall>c \<in> set tk. \<not> py_isspace c" "rest = [] \<or> py_isspace (hd rest)"
        by auto
      then have "c # cs = (c # ws) @ tk @ rest \<and> n = rev cur @ tk \<and> n \<noteq> []
        \<and> (\<forall>c \<in> set (c # ws). py_isspace c) \<and> (cur \<noteq> [] \<longrightarrow> c # ws = [])
        \<and> (\<forall>c \<in> set tk. \<not> py_isspace c) \<and> (rest = [] \<or> py_isspace (hd rest))"
        using sp True by simp
      then show ?thesis by blast
    next
      case False
      with sp Cons.prems have "n = rev cur" by simp
      then have "c # cs = [] @ [] @ (c # cs) \<and> n = rev cur @ [] \<and> n \<noteq> []
        \<and> (\<forall>c \<in> set []. py_isspace c) \<and> (cur \<noteq> [] \<longrightarrow> [] = ([] :: string))
        \<and> (\<forall>c \<in> set []. \<not> py_isspace c) \<and> (c # cs = [] \<or> py_isspace (hd (c # cs)))"
        using sp False by simp
      then show ?thesis by blast
    qed
  next
    case nsp: False
    with Cons.prems have "split_ws (c # cur) cs = n # ns" by simp
    from Cons.IH [OF this] obtain ws tk rest where
      "cs = ws @ tk @ rest" "n = rev (c # cur) @ tk" "ws = []"
      "\<forall>c \<in> set tk. \<not> py_isspace c" "rest = [] \<or> py_isspace (hd rest)"
      by auto
    then have "c # cs = [] @ (c # tk) @ rest \<and> n = rev cur @ (c # tk) \<and> n \<noteq> []
        \<and> (\<forall>c \<in> set []. py_isspace c) \<and> (cur \<noteq> [] \<longrightarrow> [] = ([] :: string))
        \<and> (\<forall>x \<in> set (c # tk). \<not> py_isspace x) \<and> (rest = [] \<or> py_isspace (hd rest))"
      using nsp by simp
    then show ?thesis by blast
  qed
qed

lemma py_split_first:
  assumes "py_split s = n # ns"
  shows "\<exists>ws rest. s = ws @ n @ rest \<and> n \<noteq> []
           \<and> (\<forall>c \<in> set ws. py_isspace c) \<and> (\<forall>c \<in> set n. \<not> py_isspace c)
           \<and> (rest = [] \<or> py_isspace (hd rest))"
  using split_ws_first [of "[]" s n ns] assms unfolding py_split_def by auto

lemma cmd_name_of_defined:
  "(\<exists>n. cmd_name_of cmd = Inr n) \<longleftrightarrow>
     (case cmd of CmdList xs \<Rightarrow> True | CmdStr s \<Rightarrow> \<exists>c \<in> set s. \<not> py_isspace c)"
proof (cases cmd)
  case (CmdStr s)
  show ?thesis
  proof (cases "py_split s")
    case Nil
    then show ?thesis using CmdStr py_split_Nil_iff [of s] by (simp add: cmd_name_of_def)
  next
    case (Cons n ns)
    then have "py_split s \<noteq> []" by simp
    then show ?thesis using CmdStr Cons py_split_Nil_iff [of s] by (auto simp: cmd_name_of_def)
  qed
next
  case (CmdList xs)
  then show ?thesis by (simp add: cmd_name_of_def)
qed

lemma safe_run_shell_spawns:
  assumes "shell_authorized env cmd"
  shows "spawns (fst (safe_run os env cmd check co tm True kw)) =
           [\<lparr>pa_args = cmd, pa_capture_output = co, pa_text = tm, pa_shell = True, pa_kwargs = kw\<rparr>]"
proof -
  have "spawns (fst (run_logged os cmd check co tm True kw)) =
          [\<lparr>pa_args = cmd, pa_capture_output = co, pa_text = tm, pa_shell = True, pa_kwargs = kw\<rparr>]"
    using run_logged_shape(2) [of os cmd check co tm True kw]
    by (subst run_logged_shape(1)) (simp add: spawns_def)
  then show ?thesis
    by (simp add: safe_run_shell_authorized [OF assms] check_shell_ok_trace [OF assms])
qed

lemma run_logged_no_permission_error:
  "snd (run_logged os cmd check co tm sh kw) \<noteq> Inl (PermissionError m)"
  by (simp add: run_logged_def subprocess_run_def Let_def split: proc_outcome.splits)

lemma safe_run_authorized_result:
  assumes "shell \<longrightarrow> shell_authorized env cmd"
  shows "snd (safe_run os env cmd check co tm shell kw) = snd (run_logged os cmd check co tm shell kw)"
    and "spawns (fst (safe_run os env cmd check co tm shell kw)) =
           [\<lparr>pa_args = cmd, pa_capture_output = co, pa_text = tm, pa_shell = shell, pa_kwargs = kw\<rparr>]"
proof -
  have sp: "spawns (fst (run_logged os cmd check co tm shell kw)) =
          [\<lparr>pa_args = cmd, pa_capture_output = co, pa_text = tm, pa_shell = shell, pa_kwargs = kw\<rparr>]"
    using run_logged_shape(2) [of os cmd check co tm shell kw]
    by (subst run_logged_shape(1)) (simp add: spawns_def)
  show "snd (safe_run os env cmd check co tm shell kw) = snd (run_logged os cmd check co tm shell kw)"
  proof (cases shell)
    case True
    with assms show ?thesis by (simp add: safe_run_shell_authorized)
  next
    case False
    then show ?thesis by (simp add: safe_run_def)
  qed
  show "spawns (fst (safe_run os env cmd check co tm shell kw)) =
           [\<lparr>pa_args = cmd, pa_capture_output = co, pa_text = tm, pa_shell = shell, pa_kwargs = kw\<rparr>]"
  proof (cases shell)
    case True
    with assms show ?thesis by (simp add: safe_run_shell_spawns)
  next
    case False
    then show ?thesis using sp by (simp add: safe_run_def)
  qed
qed

lemma check_shell_env_upd:
  assumes "py_lower (environ_get env ''ALLOW_SHELL'' '''') = ''true''"
  shows "check_shell (env(''ALLOWED_SHELL_COMMANDS'' := v)) cmd = ([EnvGet ''ALLOW_SHELL''], Inr ())"
    and "check_shell env cmd = ([EnvGet ''ALLOW_SHELL''], Inr ())"
  using assms by (simp_all add: check_shell_cases environ_get_def)

lemma run_logged_last:
  "\<exists>lv m. last (fst (run_logged os cmd check co tm sh kw)) = LogCall lv m"
  by (simp add: run_logged_def subprocess_run_def Let_def split: proc_outcome.splits)

lemma log_calls_simps [simp]:
  "log_calls [] = []"
  "log_calls (EnvGet k # t) = log_calls t"
  "log_calls (LogCall l m # t) = (l, m) # log_calls t"
  "log_calls (Spawn r # t) = log_calls t"
  "log_calls (Print s m # t) = log_calls t"
  "log_calls (t @ t') = log_calls t @ log_calls t'"
  by (simp_all add: log_calls_def)

lemma prints_simps [simp]:
  "prints [] = []"
  "prints (EnvGet k # t) = prints t"
  "prints (LogCall l m # t) = prints t"
  "prints (Spawn r # t) = prints t"
  "prints (Print s m # t) = (s, m) # prints t"
  "prints (t @ t') = prints t @ prints t'"
  by (simp_all add: prints_def)

lemma log_methods_cases:
  "log_methods x =
     (if x = ''debug'' then Some Debug
      else if x = ''info'' then Some Info
      else if x = ''warning'' then Some Warning
      else if x = ''error'' then Some Error
      else if x = ''critical'' then Some Critical
      else None)"
  by (simp add: log_methods_def)

lemma resolved_error_or_critical:
  "(case log_methods x of None \<Rightarrow> Info | Some m \<Rightarrow> m) \<in> {Error, Critical}
     \<longleftrightarrow> x \<in> {''error'', ''critical''}"
  by (simp add: log_methods_cases)

lemma py_join_concat: "py_join sep (x # xs) = x @ concat (map (\<lambda>y. sep @ y) xs)"
  by (induction xs arbitrary: x) simp_all

lemma py_lower_info: "py_lower ''info'' = ''info''"
  by (simp add: py_lower_def lower_char_def)

section \<open>The shell guard of safe_run\<close>

text \<open>
  Claim C1. In every call of \<open>safe_run\<close> with \<open>shell=True\<close>, whatever precedes a
  process creation in the trace contains the read of \<open>ALLOW_SHELL\<close> (and the read of
  \<open>ALLOWED_SHELL_COMMANDS\<close> when \<open>ALLOW_SHELL\<close> does not lowercase to \<open>true\<close>), and a
  process is created only when the policy authorizes the command; when it does not, the
  call ends in an exception and its trace holds no process creation.
\<close>

theorem shell_guard_before_spawn:
  assumes "safe_run os env cmd check capture_output text_mode True kwargs = (t, r)"
  shows "(\<forall>pre req post. t = pre @ Spawn req # post \<longrightarrow>
            EnvGet ''ALLOW_SHELL'' \<in> set pre
            \<and> (py_lower (environ_get env ''ALLOW_SHELL'' '''') \<noteq> ''true''
                 \<longrightarrow> EnvGet ''ALLOWED_SHELL_COMMANDS'' \<in> set pre)
            \<and> shell_authorized env cmd)
         \<and> (\<not> shell_authorized env cmd \<longrightarrow> (\<exists>e. r = Inl e) \<and> spawns t = [])"
proof (cases "shell_authorized env cmd")
  case True
  have "EnvGet ''ALLOW_SHELL'' \<in> set pre
        \<and> (py_lower (environ_get env ''ALLOW_SHELL'' '''') \<noteq> ''true''
              \<longrightarrow> EnvGet ''ALLOWED_SHELL_COMMANDS'' \<in> set pre)"
    if "t = pre @ Spawn req # post" for pre req post
    using authorized_spawn_prefix [OF assms True that]
    by (simp add: check_shell_ok_trace [OF True])
  with True show ?thesis by blast
next
  case False
  from assms have t: "t = [EnvGet ''ALLOW_SHELL'', EnvGet ''ALLOWED_SHELL_COMMANDS'']"
    and r: "r = (case cmd_name_of cmd of
              Inl e \<Rightarrow> Inl e
            | Inr n \<Rightarrow> Inl (PermissionError (permission_message n)))"
    unfolding safe_run_shell_unauthorized [OF False] by simp_all
  have "spawns t = []" unfolding t by simp
  moreover have "spawns (pre @ Spawn req # post) \<noteq> []" for pre req post by simp
  ultimately have "t \<noteq> pre @ Spawn req # post" for pre req post by metis
  moreover have "\<exists>e. r = Inl e" unfolding r by (simp split: sum.splits)
  ultimately show ?thesis using \<open>spawns t = []\<close> by blast
qed

theorem shell_guard_before_spawn_witness:
  "EnvGet ''ALLOW_SHELL'' \<in> set [EnvGet ''ALLOW_SHELL'', EnvGet ''ALLOWED_SHELL_COMMANDS'',
                                   LogCall Debug ''Executing: echo test'' :: unit event]
   \<and> shell_authorized [''ALLOWED_SHELL_COMMANDS'' \<mapsto> ''echo,ls''] (CmdStr ''echo test'')
   \<and> \<not> shell_authorized [''ALLOWED_SHELL_COMMANDS'' \<mapsto> ''echo,ls''] (CmdStr ''rm -rf /'')
   \<and> spawns (fst (safe_run (\<lambda>q. Exited 0 (Some ''test'') (Some '''')) [''ALLOWED_SHELL_COMMANDS'' \<mapsto> ''echo,ls'']
                 (CmdStr ''rm -rf /'') True True True True ())) = []"
proof -
  let ?os = "\<lambda>q :: unit popen_args. Exited 0 (Some ''test'') (Some '''')"
  let ?env = "[''ALLOWED_SHELL_COMMANDS'' \<mapsto> ''echo,ls'']"
  let ?pre = "[EnvGet ''ALLOW_SHELL'', EnvGet ''ALLOWED_SHELL_COMMANDS'',
               LogCall Debug ''Executing: echo test'' :: unit event]"
  let ?req = "\<lparr>pa_args = CmdStr ''echo test'', pa_capture_output = True, pa_text = True,
                pa_shell = True, pa_kwargs = ()\<rparr>"
  let ?post = "[LogCall Debug ''Command completed with return code: 0'' :: unit event]"
  let ?res = "Inr \<lparr>cp_args = CmdStr ''echo test'', cp_returncode = 0,
                     cp_stdout = Some ''test'', cp_stderr = Some ''''\<rparr>"
  have ok: "safe_run ?os ?env (CmdStr ''echo test'') True True True True ()
              = (?pre @ Spawn ?req # ?post, ?res)"
    by code_simp
  have no: "\<not> shell_authorized ?env (CmdStr ''rm -rf /'')"
    by code_simp
  obtain t r where rm: "safe_run ?os ?env (CmdStr ''rm -rf /'') True True True True () = (t, r)"
    by (cases "safe_run ?os ?env (CmdStr ''rm -rf /'') True True True True ()")
  from shell_guard_before_spawn [OF ok] have "EnvGet ''ALLOW_SHELL'' \<in> set ?pre
    \<and> shell_authorized ?env (CmdStr ''echo test'')"
    by blast
  moreover from shell_guard_before_spawn [OF rm] no have "spawns t = []"
    by blast
  ultimately show ?thesis using no rm by simp
qed

text \<open>
  Claim C2. A list-form command with \<open>shell=True\<close>, when \<open>ALLOW_SHELL\<close> does not
  lowercase to \<open>true\<close>, is rejected with \<open>PermissionError\<close> whatever
  \<open>ALLOWED_SHELL_COMMANDS\<close> holds: its extracted name is the empty string, and the
  allowed list never has an empty entry.
\<close>

theorem list_form_shell_fails_closed:
  assumes "py_lower (environ_get env ''ALLOW_SHELL'' '''') \<noteq> ''true''"
  shows "safe_run os env (CmdList xs) check capture_output text_mode True kwargs =
           ([EnvGet ''ALLOW_SHELL'', EnvGet ''ALLOWED_SHELL_COMMANDS''],
            Inl (PermissionError (permission_message '''')))
         \<and> cmd_name_of (CmdList xs) = Inr ''''
         \<and> '''' \<notin> set (allowed_list_of (environ_get env ''ALLOWED_SHELL_COMMANDS'' ''''))"
  using assms allowed_list_nonempty_entries
  by (simp add: safe_run_def check_shell_cases cmd_name_of_cases)

theorem list_form_shell_fails_closed_witness:
  "py_lower (environ_get [''ALLOWED_SHELL_COMMANDS'' \<mapsto> ''echo, ,ls''] ''ALLOW_SHELL'' '''') \<noteq> ''true''
   \<and> safe_run (\<lambda>q. Exited 0 None None) [''ALLOWED_SHELL_COMMANDS'' \<mapsto> ''echo, ,ls'']
        (CmdList [''echo'', ''hi'']) True False True True () =
        ([EnvGet ''ALLOW_SHELL'', EnvGet ''ALLOWED_SHELL_COMMANDS''],
         Inl (PermissionError (permission_message '''')))"
proof -
  have h: "py_lower (environ_get [''ALLOWED_SHELL_COMMANDS'' \<mapsto> ''echo, ,ls''] ''ALLOW_SHELL'' '''') \<noteq> ''true''"
    by code_simp
  from list_form_shell_fails_closed [OF h, of "\<lambda>q. Exited 0 None None" "[''echo'', ''hi'']" True False True "()"] h
  show ?thesis by blast
qed

text \<open>
  Claim C9. A string command made of whitespace only (the empty string included), with
  \<open>shell=True\<close> and \<open>ALLOW_SHELL\<close> not lowercasing to \<open>true\<close>, ends in the
  \<open>IndexError\<close> of \<open>cmd.split()[0]\<close>, not in a \<open>PermissionError\<close>, and creates no
  process.
\<close>

theorem blank_command_index_error:
  assumes "py_lower (environ_get env ''ALLOW_SHELL'' '''') \<noteq> ''true''"
    and "\<forall>c \<in> set s. py_isspace c"
  shows "safe_run os env (CmdStr s) check capture_output text_mode True kwargs =
           ([EnvGet ''ALLOW_SHELL'', EnvGet ''ALLOWED_SHELL_COMMANDS''],
            Inl (IndexError ''list index out of range''))
         \<and> spawns (fst (safe_run os env (CmdStr s) check capture_output text_mode True kwargs)) = []"
  using assms
  by (simp add: safe_run_def check_shell_cases cmd_name_of_cases py_split_Nil_iff)

theorem blank_command_index_error_witness:
  "py_lower (environ_get Map.empty ''ALLOW_SHELL'' '''') \<noteq> ''true''
   \<and> list_all py_isspace ''  ''
   \<and> safe_run (\<lambda>q. Exited 0 None None) Map.empty (CmdStr ''  '') True False True True () =
        ([EnvGet ''ALLOW_SHELL'', EnvGet ''ALLOWED_SHELL_COMMANDS''],
         Inl (IndexError ''list index out of range''))"
proof -
  have h: "py_lower (environ_get Map.empty ''ALLOW_SHELL'' '''') \<noteq> ''true''"
    by code_simp
  have b: "\<forall>c \<in> set ''  ''. py_isspace c"
    by code_simp
  from blank_command_index_error [OF h b, of "\<lambda>q. Exited 0 None None" True False True "()"] h b
  show ?thesis by (simp add: list_all_iff)
qed

text \<open>
  Claim C3, as amended. Let \<open>shell=True\<close>, let \<open>ALLOW_SHELL\<close> not lowercase to \<open>true\<close>,
  and let the command have an extracted name (it is a list, or a string with at least
  one non-whitespace character). Then the call ends in \<open>PermissionError\<close> with no
  process created exactly when that name is not among the non-empty whitespace-trimmed
  comma-separated entries of \<open>ALLOWED_SHELL_COMMANDS\<close>; the message quotes the extracted
  name and names both environment variables; and with both variables unset every such
  command is rejected so.
\<close>

theorem shell_allowlist_decision:
  assumes "py_lower (environ_get env ''ALLOW_SHELL'' '''') \<noteq> ''true''"
    and "cmd_name_of cmd = Inr name"
  shows "(((\<exists>m. snd (safe_run os env cmd check capture_output text_mode True kwargs)
                   = Inl (PermissionError m))
           \<and> spawns (fst (safe_run os env cmd check capture_output text_mode True kwargs)) = [])
          \<longleftrightarrow> name \<notin> set (allowed_list_of (environ_get env ''ALLOWED_SHELL_COMMANDS'' '''')))
       \<and> (name \<notin> set (allowed_list_of (environ_get env ''ALLOWED_SHELL_COMMANDS'' ''''))
            \<longrightarrow> snd (safe_run os env cmd check capture_output text_mode True kwargs)
                  = Inl (PermissionError
                      (''Shell execution not allowed. Set ALLOW_SHELL=true or add ''
                         @ [CHR 0x27] @ name @ [CHR 0x27]
                         @ '' to ALLOWED_SHELL_COMMANDS environment variable.'')))
       \<and> (env ''ALLOW_SHELL'' = None \<and> env ''ALLOWED_SHELL_COMMANDS'' = None
            \<longrightarrow> (\<exists>m. snd (safe_run os env cmd check capture_output text_mode True kwargs)
                        = Inl (PermissionError m))
                \<and> spawns (fst (safe_run os env cmd check capture_output text_mode True kwargs)) = [])"
proof (cases "name \<in> set (allowed_list_of (environ_get env ''ALLOWED_SHELL_COMMANDS'' ''''))")
  case True
  then have auth: "shell_authorized env cmd"
    using assms by (simp add: shell_authorized_def)
  have "spawns (fst (safe_run os env cmd check capture_output text_mode True kwargs)) \<noteq> []"
    by (simp add: safe_run_shell_spawns [OF auth])
  moreover have "allowed_list_of (environ_get env ''ALLOWED_SHELL_COMMANDS'' '''') = []"
    if "env ''ALLOWED_SHELL_COMMANDS'' = None"
    using that by (simp add: environ_get_def allowed_list_of_def py_strip_def)
  ultimately show ?thesis using True by auto
next
  case False
  then have "\<not> shell_authorized env cmd"
    using assms by (simp add: shell_authorized_def)
  from safe_run_shell_unauthorized [OF this, of os check capture_output text_mode kwargs]
  show ?thesis using False assms(2) by (simp add: permission_message_def)
qed

theorem shell_allowlist_decision_witness:
  "py_lower (environ_get [''ALLOWED_SHELL_COMMANDS'' \<mapsto> ''echo,ls''] ''ALLOW_SHELL'' '''') \<noteq> ''true''
   \<and> cmd_name_of (CmdStr ''rm -rf /'') = Inr ''rm''
   \<and> ''rm'' \<notin> set (allowed_list_of (environ_get [''ALLOWED_SHELL_COMMANDS'' \<mapsto> ''echo,ls''] ''ALLOWED_SHELL_COMMANDS'' ''''))
   \<and> snd (safe_run (\<lambda>q. Exited 0 None None) [''ALLOWED_SHELL_COMMANDS'' \<mapsto> ''echo,ls'']
            (CmdStr ''rm -rf /'') True False True True ())
       = Inl (PermissionError
           (''Shell execution not allowed. Set ALLOW_SHELL=true or add ''
              @ [CHR 0x27] @ ''rm'' @ [CHR 0x27]
              @ '' to ALLOWED_SHELL_COMMANDS environment variable.''))"
proof -
  let ?env = "[''ALLOWED_SHELL_COMMANDS'' \<mapsto> ''echo,ls'']"
  have h: "py_lower (environ_get ?env ''ALLOW_SHELL'' '''') \<noteq> ''true''"
    by code_simp
  have n: "cmd_name_of (CmdStr ''rm -rf /'') = Inr ''rm''"
    by code_simp
  have a: "''rm'' \<notin> set (allowed_list_of (environ_get ?env ''ALLOWED_SHELL_COMMANDS'' ''''))"
    by code_simp
  from shell_allowlist_decision [OF h n, of "\<lambda>q. Exited 0 None None" True False True "()"] h n a
  show ?thesis by blast
qed

text \<open>
  Claim C3 as first stated fails at two inputs. With both variables unset the empty
  string command ends in \<open>IndexError\<close>, not \<open>PermissionError\<close>. With
  \<open>ALLOWED_SHELL_COMMANDS="echo, ,ls"\<close> the empty name of a list command is among the
  whitespace-trimmed comma-separated entries, and the call is rejected all the same,
  since empty entries are dropped from the allowed list.
\<close>

theorem shell_allowlist_counterexample:
  "safe_run (\<lambda>q. Exited 0 None None) Map.empty (CmdStr '''') True False True True ()
     = ([EnvGet ''ALLOW_SHELL'', EnvGet ''ALLOWED_SHELL_COMMANDS''],
        Inl (IndexError ''list index out of range''))
   \<and> '''' \<in> set (map py_strip (py_split_sep CHR '','' ''echo, ,ls''))
   \<and> safe_run (\<lambda>q. Exited 0 None None) [''ALLOWED_SHELL_COMMANDS'' \<mapsto> ''echo, ,ls'']
        (CmdList [''echo'', ''hi'']) True False True True ()
     = ([EnvGet ''ALLOW_SHELL'', EnvGet ''ALLOWED_SHELL_COMMANDS''],
        Inl (PermissionError
           (''Shell execution not allowed. Set ALLOW_SHELL=true or add ''
              @ [CHR 0x27] @ '''' @ [CHR 0x27]
              @ '' to ALLOWED_SHELL_COMMANDS environment variable.'')))"
  by code_simp

text \<open>
  Claim C4. When \<open>ALLOW_SHELL\<close> lowercases to \<open>true\<close>, a call with \<open>shell=True\<close>, for a
  string or a list command, never reads \<open>ALLOWED_SHELL_COMMANDS\<close> and does not depend
  on its value, does not end in the policy's \<open>PermissionError\<close>, and creates the
  process for the command with shell interpretation.
\<close>

theorem allow_shell_true_authorizes:
  assumes "py_lower (environ_get env ''ALLOW_SHELL'' '''') = ''true''"
  shows "EnvGet ''ALLOWED_SHELL_COMMANDS''
           \<notin> set (fst (safe_run os env cmd check capture_output text_mode True kwargs))
       \<and> safe_run os (env(''ALLOWED_SHELL_COMMANDS'' := v)) cmd check capture_output text_mode True kwargs
           = safe_run os env cmd check capture_output text_mode True kwargs
       \<and> (\<forall>m. snd (safe_run os env cmd check capture_output text_mode True kwargs)
                 \<noteq> Inl (PermissionError m))
       \<and> spawns (fst (safe_run os env cmd check capture_output text_mode True kwargs))
           = [\<lparr>pa_args = cmd, pa_capture_output = capture_output, pa_text = text_mode,
               pa_shell = True, pa_kwargs = kwargs\<rparr>]"
proof -
  have auth: "shell_authorized env cmd"
    using assms by (simp add: shell_authorized_def)
  have "fst (safe_run os env cmd check capture_output text_mode True kwargs)
          = EnvGet ''ALLOW_SHELL'' # fst (run_logged os cmd check capture_output text_mode True kwargs)"
    using assms by (simp add: safe_run_shell_authorized [OF auth] check_shell_ok_trace [OF auth])
  then have "EnvGet ''ALLOWED_SHELL_COMMANDS''
           \<notin> set (fst (safe_run os env cmd check capture_output text_mode True kwargs))"
    using run_logged_last [of os cmd check capture_output text_mode True kwargs]
    by (subst (asm) run_logged_shape(1)) auto
  moreover have "safe_run os (env(''ALLOWED_SHELL_COMMANDS'' := v)) cmd check capture_output text_mode True kwargs
           = safe_run os env cmd check capture_output text_mode True kwargs"
    unfolding safe_run_def check_shell_env_upd [OF assms] by simp
  moreover have "snd (safe_run os env cmd check capture_output text_mode True kwargs)
                 \<noteq> Inl (PermissionError m)" for m
    using safe_run_authorized_result(1) [of True env cmd os check capture_output text_mode kwargs] auth
    by (simp add: run_logged_no_permission_error)
  ultimately show ?thesis
    using safe_run_shell_spawns [OF auth] by simp
qed

theorem allow_shell_true_authorizes_witness:
  "py_lower (environ_get [''ALLOW_SHELL'' \<mapsto> ''True''] ''ALLOW_SHELL'' '''') = ''true''
   \<and> spawns (fst (safe_run (\<lambda>q. Exited 0 (Some ''hello'') (Some '''')) [''ALLOW_SHELL'' \<mapsto> ''True'']
                 (CmdStr ''echo hello'') True True True True ()))
       = [\<lparr>pa_args = CmdStr ''echo hello'', pa_capture_output = True, pa_text = True,
           pa_shell = True, pa_kwargs = ()\<rparr>]
   \<and> EnvGet ''ALLOWED_SHELL_COMMANDS''
        \<notin> set (fst (safe_run (\<lambda>q. Exited 0 (Some ''hello'') (Some '''')) [''ALLOW_SHELL'' \<mapsto> ''True'']
                 (CmdStr ''echo hello'') True True True True ()))"
proof -
  have h: "py_lower (environ_get [''ALLOW_SHELL'' \<mapsto> ''True''] ''ALLOW_SHELL'' '''') = ''true''"
    by code_simp
  from allow_shell_true_authorizes [OF h, of "\<lambda>q. Exited 0 (Some ''hello'') (Some '''')"
      "CmdStr ''echo hello''" True True True "()"] h
  show ?thesis by blast
qed

text \<open>
  Claim C5. When the process of a permitted command exits with a non-zero return code,
  the call with \<open>check=True\<close> ends in \<open>CalledProcessError\<close> carrying the return code
  and the command (and logs both at error level), and the same call with
  \<open>check=False\<close> returns the completed process with that return code.
\<close>

theorem check_flag_nonzero_exit:
  assumes "shell \<longrightarrow> shell_authorized env cmd"
    and "os \<lparr>pa_args = cmd, pa_capture_output = capture_output, pa_text = text_mode,
             pa_shell = shell, pa_kwargs = kwargs\<rparr> = Exited rc out err"
    and "rc \<noteq> 0"
  shows "snd (safe_run os env cmd True capture_output text_mode shell kwargs)
           = Inl (CalledProcessError rc cmd out err)
       \<and> snd (safe_run os env cmd False capture_output text_mode shell kwargs)
           = Inr \<lparr>cp_args = cmd, cp_returncode = rc, cp_stdout = out, cp_stderr = err\<rparr>
       \<and> last (fst (safe_run os env cmd True capture_output text_mode shell kwargs))
           = LogCall Error (''Command failed with return code '' @ str_int rc @ '': ''
               @ (case cmd of CmdStr s \<Rightarrow> s | CmdList xs \<Rightarrow> py_join '' '' xs))
       \<and> spawns (fst (safe_run os env cmd True capture_output text_mode shell kwargs))
           = spawns (fst (safe_run os env cmd False capture_output text_mode shell kwargs))"
proof -
  have "last (fst (safe_run os env cmd True capture_output text_mode shell kwargs))
          = last (fst (run_logged os cmd True capture_output text_mode shell kwargs))"
  proof (cases shell)
    case True
    with assms(1) have "shell_authorized env cmd" by simp
    moreover have "fst (run_logged os cmd True capture_output text_mode True kwargs) \<noteq> []"
      by (subst run_logged_shape(1)) simp
    ultimately show ?thesis
      using True by (simp add: safe_run_shell_authorized)
  next
    case False
    then show ?thesis by (simp add: safe_run_def)
  qed
  then show ?thesis
    using assms(2,3)
    by (simp add: safe_run_authorized_result [OF assms(1)] run_logged_def subprocess_run_def Let_def)
qed

theorem check_flag_nonzero_exit_witness:
  "shell_authorized [''ALLOW_SHELL'' \<mapsto> ''true''] (CmdStr ''exit 3'')
   \<and> snd (safe_run (\<lambda>q. Exited 3 None None) [''ALLOW_SHELL'' \<mapsto> ''true''] (CmdStr ''exit 3'')
            True False True True ())
       = Inl (CalledProcessError 3 (CmdStr ''exit 3'') None None)
   \<and> snd (safe_run (\<lambda>q. Exited 3 None None) [''ALLOW_SHELL'' \<mapsto> ''true''] (CmdStr ''exit 3'')
            False False True True ())
       = Inr \<lparr>cp_args = CmdStr ''exit 3'', cp_returncode = 3, cp_stdout = None, cp_stderr = None\<rparr>"
proof -
  have auth: "shell_authorized [''ALLOW_SHELL'' \<mapsto> ''true''] (CmdStr ''exit 3'')"
    by code_simp
  then have a: "True \<longrightarrow> shell_authorized [''ALLOW_SHELL'' \<mapsto> ''true''] (CmdStr ''exit 3'')"
    by simp
  have b: "(\<lambda>q. Exited 3 None None)
             \<lparr>pa_args = CmdStr ''exit 3'', pa_capture_output = False, pa_text = True,
              pa_shell = True, pa_kwargs = ()\<rparr> = Exited 3 None None"
    by simp
  have c: "(3::int) \<noteq> 0" by simp
  from check_flag_nonzero_exit [where os = "\<lambda>q. Exited 3 None None" and capture_output = False
      and text_mode = True and kwargs = "()", OF a b c] auth
  show ?thesis by simp
qed

text \<open>
  Claim C10. Two string commands with the same first whitespace-delimited token, run
  with \<open>shell=True\<close> under the same environment, get the same outcome of the policy
  check: both create a process or neither does, and both are rejected with the same
  \<open>PermissionError\<close> or neither is.
\<close>

theorem same_first_token_same_decision:
  assumes "py_split s1 = name # rest1" and "py_split s2 = name # rest2"
  shows "(check_shell env (CmdStr s1) :: 'k event list \<times> (error + unit)) = check_shell env (CmdStr s2)
       \<and> (spawns (fst (safe_run os env (CmdStr s1) check capture_output text_mode True (kwargs :: 'k))) = []
            \<longleftrightarrow> spawns (fst (safe_run os env (CmdStr s2) check capture_output text_mode True kwargs)) = [])
       \<and> (\<forall>m. snd (safe_run os env (CmdStr s1) check capture_output text_mode True kwargs)
                   = Inl (PermissionError m)
               \<longleftrightarrow> snd (safe_run os env (CmdStr s2) check capture_output text_mode True kwargs)
                   = Inl (PermissionError m))"
proof -
  have n: "cmd_name_of (CmdStr s1) = Inr name" "cmd_name_of (CmdStr s2) = Inr name"
    using assms by (simp_all add: cmd_name_of_cases)
  then have auth: "shell_authorized env (CmdStr s1) = shell_authorized env (CmdStr s2)"
    by (simp add: shell_authorized_def)
  have cs: "(check_shell env (CmdStr s1) :: 'k event list \<times> (error + unit)) = check_shell env (CmdStr s2)"
    by (simp add: check_shell_cases n)
  show ?thesis
  proof (cases "shell_authorized env (CmdStr s1)")
    case True
    with auth have a2: "shell_authorized env (CmdStr s2)" by simp
    have r1: "True \<longrightarrow> shell_authorized env (CmdStr s1)"
      and r2: "True \<longrightarrow> shell_authorized env (CmdStr s2)"
      using True a2 by simp_all
    show ?thesis
      using cs
      by (simp add: safe_run_authorized_result [OF r1] safe_run_authorized_result [OF r2]
            run_logged_no_permission_error)
  next
    case False
    with auth have a2: "\<not> shell_authorized env (CmdStr s2)" by simp
    show ?thesis
      using cs by (simp add: safe_run_shell_unauthorized [OF False] safe_run_shell_unauthorized [OF a2] n)
  qed
qed

theorem same_first_token_same_decision_witness:
  "py_split ''echo hi'' = ''echo'' # [''hi'']
   \<and> py_split ''echo $(cat /etc/passwd) | sh'' = ''echo'' # [''$(cat'', ''/etc/passwd)'', ''|'', ''sh'']
   \<and> (check_shell [''ALLOWED_SHELL_COMMANDS'' \<mapsto> ''echo,ls''] (CmdStr ''echo hi'') :: unit event list \<times> (error + unit))
       = check_shell [''ALLOWED_SHELL_COMMANDS'' \<mapsto> ''echo,ls''] (CmdStr ''echo $(cat /etc/passwd) | sh'')"
proof -
  have a: "py_split ''echo hi'' = ''echo'' # [''hi'']" by code_simp
  have b: "py_split ''echo $(cat /etc/passwd) | sh'' = ''echo'' # [''$(cat'', ''/etc/passwd)'', ''|'', ''sh'']"
    by code_simp
  from same_first_token_same_decision [OF a b, where 'k = unit and env = "[''ALLOWED_SHELL_COMMANDS'' \<mapsto> ''echo,ls'']"] a b
  show ?thesis by simp
qed

section \<open>The log line and the console mirror of user_log\<close>

text \<open>
  Claim C6. A call of \<open>user_log\<close> prints the line it sent to the log sink exactly when
  \<open>LOG_TO_STDOUT\<close> lowercases to \<open>true\<close>; the print goes to standard error when
  \<open>stderr=True\<close> or the resolved severity is error or critical, and to standard output
  otherwise; with \<open>LOG_TO_STDOUT\<close> unset nothing is printed, whatever the level.
\<close>

theorem console_mirror_routing:
  "\<exists>sev line.
      log_calls (user_log str_of env message level stderr kwargs :: 'k event list) = [(sev, line)]
      \<and> prints (user_log str_of env message level stderr kwargs :: 'k event list)
          = (if py_lower (environ_get env ''LOG_TO_STDOUT'' '''') = ''true''
             then [(if stderr \<or> sev = Error \<or> sev = Critical then Stderr else Stdout, line)]
             else [])
      \<and> (env ''LOG_TO_STDOUT'' = None
           \<longrightarrow> prints (user_log str_of env message level stderr kwargs :: 'k event list) = [])"
proof -
  have unset: "py_lower (environ_get env ''LOG_TO_STDOUT'' '''') \<noteq> ''true''"
    if "env ''LOG_TO_STDOUT'' = None"
    using that by (simp add: environ_get_def py_lower_def)
  show ?thesis
    using resolved_error_or_critical [of "py_lower level"] unset
    by (auto simp: user_log_def Let_def)
qed

theorem console_mirror_routing_witness:
  "prints (user_log (\<lambda>v. v) [''LOG_TO_STDOUT'' \<mapsto> ''TRUE''] ''disk full'' ''Error'' False [] :: unit event list)
     = [(Stderr, ''disk full'')]
   \<and> prints (user_log (\<lambda>v. v) [''LOG_TO_STDOUT'' \<mapsto> ''true''] ''started'' ''info'' False [] :: unit event list)
     = [(Stdout, ''started'')]
   \<and> prints (user_log (\<lambda>v. v) Map.empty ''disk full'' ''critical'' True [] :: unit event list) = []"
proof -
  have a: "log_calls (user_log (\<lambda>v. v) [''LOG_TO_STDOUT'' \<mapsto> ''TRUE''] ''disk full'' ''Error'' False [] :: unit event list)
             = [(Error, ''disk full'')]"
    by code_simp
  have b: "log_calls (user_log (\<lambda>v. v) [''LOG_TO_STDOUT'' \<mapsto> ''true''] ''started'' ''info'' False [] :: unit event list)
             = [(Info, ''started'')]"
    by code_simp
  have c: "py_lower (environ_get [''LOG_TO_STDOUT'' \<mapsto> ''TRUE''] ''LOG_TO_STDOUT'' '''') = ''true''"
    "py_lower (environ_get [''LOG_TO_STDOUT'' \<mapsto> ''true''] ''LOG_TO_STDOUT'' '''') = ''true''"
    by code_simp+
  from console_mirror_routing [where 'k = unit and str_of = "\<lambda>v. v" and env = "[''LOG_TO_STDOUT'' \<mapsto> ''TRUE'']"
      and message = "''disk full''" and level = "''Error''" and stderr = False and kwargs = "[]"]
  have 1: "prints (user_log (\<lambda>v. v) [''LOG_TO_STDOUT'' \<mapsto> ''TRUE''] ''disk full'' ''Error'' False [] :: unit event list)
     = [(Stderr, ''disk full'')]"
    unfolding a c by auto
  from console_mirror_routing [where 'k = unit and str_of = "\<lambda>v. v" and env = "[''LOG_TO_STDOUT'' \<mapsto> ''true'']"
      and message = "''started''" and level = "''info''" and stderr = False and kwargs = "[]"]
  have 2: "prints (user_log (\<lambda>v. v) [''LOG_TO_STDOUT'' \<mapsto> ''true''] ''started'' ''info'' False [] :: unit event list)
     = [(Stdout, ''started'')]"
    unfolding b c by auto
  from console_mirror_routing [where 'k = unit and str_of = "\<lambda>v. v" and env = "Map.empty"
      and message = "''disk full''" and level = "''critical''" and stderr = True and kwargs = "[]"]
  have 3: "prints (user_log (\<lambda>v. v) Map.empty ''disk full'' ''critical'' True [] :: unit event list) = []"
    by auto
  from 1 2 3 show ?thesis by blast
qed

text \<open>
  Claim C7. The line sent to the log sink is the message alone when the context is
  empty; otherwise it is the message, a space, and between brackets the pairs
  \<open>key=value\<close> in the order of the context, each pair after the first preceded by
  \<open>" | "\<close>.
\<close>

theorem log_line_format:
  "\<exists>sev.
     log_calls (user_log str_of env message level stderr kwargs :: 'k event list) =
       [(sev,
         case kwargs of
           [] \<Rightarrow> message
         | (k, v) # rest \<Rightarrow>
             message @ '' '' @ ''['' @ k @ ''='' @ str_of v
               @ concat (map (\<lambda>(k', v'). '' | '' @ k' @ ''='' @ str_of v') rest) @ '']'')]"
proof (cases kwargs)
  case Nil
  then show ?thesis by (simp add: user_log_def Let_def)
next
  case (Cons p rest)
  obtain k v where p: "p = (k, v)" by (cases p)
  show ?thesis
    unfolding Cons p
    by (simp add: user_log_def Let_def py_join_concat comp_def split_def)
qed

theorem log_line_format_witness:
  "\<exists>sev. log_calls (user_log (\<lambda>v. v) Map.empty ''Task completed'' ''info'' False
                     [(''task_id'', ''123''), (''status'', ''success'')] :: unit event list)
           = [(sev, ''Task completed [task_id=123 | status=success]'')]"
  using log_line_format [where 'k = unit and str_of = "\<lambda>v. v" and env = Map.empty
      and message = "''Task completed''" and level = "''info''" and stderr = False
      and kwargs = "[(''task_id'', ''123''), (''status'', ''success'')]"]
  by simp

text \<open>
  Claim C8. A level that does not lowercase to one of debug, info, warning, error,
  critical gives the very trace that \<open>level="info"\<close> gives, for every message,
  context and \<open>stderr\<close> flag: the same sink method with the same line, and the same
  print on the same stream.
\<close>

theorem unknown_level_is_info:
  assumes "py_lower level \<notin> {''debug'', ''info'', ''warning'', ''error'', ''critical''}"
  shows "(user_log str_of env message level stderr kwargs :: 'k event list)
           = user_log str_of env message ''info'' stderr kwargs"
  using assms by (simp add: user_log_def Let_def log_methods_cases py_lower_info)

theorem unknown_level_is_info_witness:
  "py_lower ''Trace'' \<notin> {''debug'', ''info'', ''warning'', ''error'', ''critical''}
   \<and> (user_log (\<lambda>v. v) [''LOG_TO_STDOUT'' \<mapsto> ''true''] ''step'' ''Trace'' False [(''n'', ''1'')] :: unit event list)
       = user_log (\<lambda>v. v) [''LOG_TO_STDOUT'' \<mapsto> ''true''] ''step'' ''info'' False [(''n'', ''1'')]"
proof -
  have h: "py_lower ''Trace'' \<notin> {''debug'', ''info'', ''warning'', ''error'', ''critical''}"
    by code_simp
  from unknown_level_is_info [OF h] h show ?thesis by simp
qed

end
